theory Spec2Isabelle
  imports Main
begin

section \<open>The host: clock, one-shot timers, frame requests, periodic timers\<close>

text \<open>
  The wrappers of \<^verbatim>\<open>events.ts\<close> talk to four services of the host: \<^verbatim>\<open>Date.now\<close>,
  \<^verbatim>\<open>setTimeout\<close>/\<^verbatim>\<open>clearTimeout\<close>, \<^verbatim>\<open>requestAnimationFrame\<close>/\<^verbatim>\<open>cancelAnimationFrame\<close>
  and \<^verbatim>\<open>setInterval\<close>. The host is a record that is passed through every operation.

  The callback handed to a wrapper is arbitrary; all that a wrapper decides is when it is
  invoked and with which argument list. The host therefore keeps a journal of the
  invocations: the time, whether the invocation was made inside the call of the wrapped
  function (\<open>Immediate\<close>) or by the host from a timer or a frame (\<open>Deferred\<close>), and the
  argument list. Times are integer milliseconds, as \<^verbatim>\<open>Date.now\<close> returns them.

  A callback either returns or throws, and no wrapper catches what it throws. The callback
  is a function from the host at the moment of the invocation and the argument list to the
  way the invocation ends; it is taken not to call the wrapper again from inside itself.
  When the callback throws inside the wrapped function, the rest of the body is skipped and
  the exception leaves the wrapped function; the variables and the host stay as they are
  at that point. When it throws inside a timer or a frame, the host reports the exception
  and goes on.

  A closure \<^verbatim>\<open>() => callback(...args)\<close> given to \<^verbatim>\<open>setTimeout\<close> is kept as the list it
  will pass; a closure \<^verbatim>\<open>time => callback(...)\<close> given to \<^verbatim>\<open>requestAnimationFrame\<close> is
  kept as the function from the frame's timestamp to the list it will pass.
\<close>

datatype path = Immediate | Deferred

datatype completion = Returned | Threw

text \<open>Values for the examples: the arguments are \<^verbatim>\<open>any[]\<close> in the source.\<close>

datatype any = Num int | Str string

record 'a host =
  clock :: int
  fresh :: nat
  timeouts :: "(nat \<times> int \<times> 'a list) list"
  frames :: "(nat \<times> ('a \<Rightarrow> 'a list)) list"
  intervals :: "(nat \<times> int \<times> 'a list) list"
  invoked :: "(int \<times> path \<times> 'a list) list"

definition boot :: "int \<Rightarrow> 'a host" where
  "boot t0 = \<lparr>clock = t0, fresh = 1, timeouts = [], frames = [], intervals = [], invoked = []\<rparr>"

definition Date_now :: "'a host \<Rightarrow> int" where
  "Date_now h = clock h"

text \<open>
  The invocation of a callback \<open>cb\<close> inside a wrapped function: the journal gets its entry,
  and the invocation ends as \<open>cb\<close> says.
\<close>

definition invoke ::
  "('a host \<Rightarrow> 'a list \<Rightarrow> completion) \<Rightarrow> path \<Rightarrow> 'a list \<Rightarrow> 'a host \<Rightarrow> completion \<times> 'a host"
  where
  "invoke cb p args h = (cb h args, h\<lparr>invoked := invoked h @ [(clock h, p, args)]\<rparr>)"

text \<open>Two callbacks for the examples: one always returns, one throws on one argument list.\<close>

definition returns :: "'a host \<Rightarrow> 'a list \<Rightarrow> completion" where
  "returns h args = Returned"

definition throws_on :: "'a list \<Rightarrow> 'a host \<Rightarrow> 'a list \<Rightarrow> completion" where
  "throws_on bad h args = (if args = bad then Threw else Returned)"

text \<open>A negative delay counts as zero. The handle returned is new.\<close>

definition setTimeout :: "'a list \<Rightarrow> int \<Rightarrow> 'a host \<Rightarrow> nat \<times> 'a host" where
  "setTimeout args delay h =
     (fresh h, h\<lparr>fresh := Suc (fresh h),
                 timeouts := timeouts h @ [(fresh h, clock h + max 0 delay, args)]\<rparr>)"

text \<open>\<^verbatim>\<open>clearTimeout(undefined)\<close> does nothing.\<close>

definition clearTimeout :: "nat option \<Rightarrow> 'a host \<Rightarrow> 'a host" where
  "clearTimeout t h =
     (case t of None \<Rightarrow> h
      | Some i \<Rightarrow> h\<lparr>timeouts := filter (\<lambda>e. fst e \<noteq> i) (timeouts h)\<rparr>)"

definition requestAnimationFrame :: "('a \<Rightarrow> 'a list) \<Rightarrow> 'a host \<Rightarrow> nat \<times> 'a host" where
  "requestAnimationFrame f h =
     (fresh h, h\<lparr>fresh := Suc (fresh h), frames := frames h @ [(fresh h, f)]\<rparr>)"

definition cancelAnimationFrame :: "nat \<Rightarrow> 'a host \<Rightarrow> 'a host" where
  "cancelAnimationFrame i h = h\<lparr>frames := filter (\<lambda>e. fst e \<noteq> i) (frames h)\<rparr>"

text \<open>\<^verbatim>\<open>setInterval(handler, undefined, ...)\<close> takes the period as zero.\<close>

definition setInterval :: "'a list \<Rightarrow> int option \<Rightarrow> 'a host \<Rightarrow> nat \<times> 'a host" where
  "setInterval args period h =
     (fresh h, h\<lparr>fresh := Suc (fresh h),
                 intervals := intervals h @
                   [(fresh h, (case period of None \<Rightarrow> 0 | Some p \<Rightarrow> p), args)]\<rparr>)"

definition clearInterval :: "nat \<Rightarrow> 'a host \<Rightarrow> 'a host" where
  "clearInterval i h = h\<lparr>intervals := filter (\<lambda>e. fst e \<noteq> i) (intervals h)\<rparr>"

text \<open>
  What the host does on its own. \<open>elapse t\<close>: time passes until \<open>t\<close>; every timeout that is
  due by then runs, in the order of the due times (and of arming, among equal ones), at
  its due time or, when it is already late, at once. \<open>render ts\<close>: a frame is rendered;
  every requested frame callback runs with the frame's timestamp \<open>ts\<close>. \<open>repeat i\<close>: one
  period of the interval \<open>i\<close> is over; its handler runs with the arguments registered.
\<close>

definition elapse :: "int \<Rightarrow> 'a host \<Rightarrow> 'a host" where
  "elapse t h =
     h\<lparr>clock := t,
       timeouts := filter (\<lambda>e. \<not> fst (snd e) \<le> t) (timeouts h),
       invoked := invoked h @
         map (\<lambda>e. (max (clock h) (fst (snd e)), Deferred, snd (snd e)))
           (sort_key (\<lambda>e. fst (snd e)) (filter (\<lambda>e. fst (snd e) \<le> t) (timeouts h)))\<rparr>"

definition render :: "'a \<Rightarrow> 'a host \<Rightarrow> 'a host" where
  "render ts h =
     h\<lparr>frames := [],
       invoked := invoked h @ map (\<lambda>e. (clock h, Deferred, snd e ts)) (frames h)\<rparr>"

definition repeat :: "nat \<Rightarrow> 'a host \<Rightarrow> 'a host" where
  "repeat i h =
     h\<lparr>invoked := invoked h @
         map (\<lambda>e. (clock h, Deferred, snd (snd e))) (filter (\<lambda>e. fst e = i) (intervals h))\<rparr>"

text \<open>
  What can happen to a wrapper: the wrapped function is called with an argument list at
  the present time (\<open>Call\<close>), time passes and due timeouts run (\<open>Elapse\<close>), the clock moves
  while the host is busy and runs nothing (\<open>Tick\<close>), or a frame is rendered (\<open>Frame\<close>).
\<close>

datatype 'a event = Call "'a list" | Elapse int | Tick int | Frame 'a

fun host_event :: "'a event \<Rightarrow> 'a host \<Rightarrow> 'a host" where
  "host_event (Call args) h = h"
| "host_event (Elapse t) h = elapse t h"
| "host_event (Tick t) h = h\<lparr>clock := t\<rparr>"
| "host_event (Frame ts) h = render ts h"

section \<open>The wrappers\<close>

text \<open>
  The variables that the function returned by a factory closes over: \<^verbatim>\<open>lastCall\<close>
  (\<^verbatim>\<open>throttle\<close>, \<^verbatim>\<open>initialEvent\<close>), \<^verbatim>\<open>timer\<close> (\<^verbatim>\<open>throttle\<close>, \<^verbatim>\<open>finalEvent\<close>) and \<^verbatim>\<open>frame\<close>
  (\<^verbatim>\<open>animationEvent\<close>). Each is \<^verbatim>\<open>undefined\<close> when the factory returns; a wrapper reads and
  writes only the ones its source declares. The two source files differ in \<^verbatim>\<open>throttle\<close>,
  \<^verbatim>\<open>initialEvent\<close> and \<^verbatim>\<open>animationEvent\<close>: the second file takes \<^verbatim>\<open>initArguments\<close> at the
  factory. Its functions carry the suffix \<open>_initArgs\<close> here.

  The body of a wrapped function that invokes the callback itself (\<^verbatim>\<open>throttle\<close>,
  \<^verbatim>\<open>initialEvent\<close>) gives back how the call ends together with the variables and the host;
  the others (\<^verbatim>\<open>finalEvent\<close>, \<^verbatim>\<open>animationEvent\<close>) invoke it only inside a timer or a frame,
  so they always return and give back the variables and the host alone.
\<close>

record vars =
  lastCall :: "int option"
  timer :: "nat option"
  frame :: "nat option"

definition new_vars :: vars where
  "new_vars = \<lparr>lastCall = None, timer = None, frame = None\<rparr>"

subsection \<open>throttle\<close>

definition throttle ::
  "('a host \<Rightarrow> 'a list \<Rightarrow> completion) \<Rightarrow> int \<Rightarrow> bool \<Rightarrow> 'a list \<Rightarrow>
     vars \<times> 'a host \<Rightarrow> completion \<times> vars \<times> 'a host" where
  "throttle callback timeout executeLastEvent args = (\<lambda>(v, h).
     let timeNow = Date_now h in
     if (case lastCall v of None \<Rightarrow> True | Some l \<Rightarrow> timeNow - l > timeout) then
       let v1 = v\<lparr>lastCall := Some timeNow\<rparr>;
           (r, h1) = invoke callback Immediate args h
       in if r = Threw then (Threw, v1, h1)
          else (case timer v1 of
                  Some i \<Rightarrow> (Returned, v1\<lparr>timer := None\<rparr>, clearTimeout (Some i) h1)
                | None \<Rightarrow> (Returned, v1, h1))
     else if executeLastEvent \<and> timer v = None then
       let (i, h1) = setTimeout args timeout h in (Returned, v\<lparr>timer := Some i\<rparr>, h1)
     else (Returned, v, h))"

definition throttle_initArgs ::
  "('a host \<Rightarrow> 'a list \<Rightarrow> completion) \<Rightarrow> int \<Rightarrow> bool \<Rightarrow> 'a list \<Rightarrow> 'a list \<Rightarrow>
     vars \<times> 'a host \<Rightarrow> completion \<times> vars \<times> 'a host" where
  "throttle_initArgs callback timeout executeLastEvent initArguments callArguments = (\<lambda>(v, h).
     let timeNow = Date_now h in
     if (case lastCall v of None \<Rightarrow> True | Some l \<Rightarrow> timeNow - l > timeout) then
       let v1 = v\<lparr>lastCall := Some timeNow\<rparr>;
           (r, h1) = invoke callback Immediate callArguments h
       in if r = Threw then (Threw, v1, h1)
          else (case timer v1 of
                  Some i \<Rightarrow> (Returned, v1\<lparr>timer := None\<rparr>, clearTimeout (Some i) h1)
                | None \<Rightarrow> (Returned, v1, h1))
     else if executeLastEvent \<and> timer v = None then
       let (i, h1) = setTimeout (callArguments @ initArguments) timeout h
       in (Returned, v\<lparr>timer := Some i\<rparr>, h1)
     else (Returned, v, h))"

subsection \<open>finalEvent\<close>

definition finalEvent :: "int \<Rightarrow> 'a list \<Rightarrow> vars \<times> 'a host \<Rightarrow> vars \<times> 'a host" where
  "finalEvent timeout args = (\<lambda>(v, h).
     let h1 = clearTimeout (timer v) h;
         (i, h2) = setTimeout args timeout h1
     in (v\<lparr>timer := Some i\<rparr>, h2))"

subsection \<open>initialEvent\<close>

definition initialEvent ::
  "('a host \<Rightarrow> 'a list \<Rightarrow> completion) \<Rightarrow> int \<Rightarrow> 'a list \<Rightarrow>
     vars \<times> 'a host \<Rightarrow> completion \<times> vars \<times> 'a host" where
  "initialEvent callback timeout args = (\<lambda>(v, h).
     let now = Date_now h in
     if (case lastCall v of None \<Rightarrow> True | Some l \<Rightarrow> now - l > timeout) then
       let (r, h1) = invoke callback Immediate args h
       in if r = Threw then (Threw, v, h1)
          else (Returned, v\<lparr>lastCall := Some now\<rparr>, h1)
     else (Returned, v\<lparr>lastCall := Some now\<rparr>, h))"

definition initialEvent_initArgs ::
  "('a host \<Rightarrow> 'a list \<Rightarrow> completion) \<Rightarrow> int \<Rightarrow> 'a list \<Rightarrow> 'a list \<Rightarrow>
     vars \<times> 'a host \<Rightarrow> completion \<times> vars \<times> 'a host" where
  "initialEvent_initArgs callback timeout initArguments callArguments = (\<lambda>(v, h).
     let now = Date_now h in
     if (case lastCall v of None \<Rightarrow> True | Some l \<Rightarrow> now - l > timeout) then
       let (r, h1) = invoke callback Immediate (callArguments @ initArguments) h
       in if r = Threw then (Threw, v, h1)
          else (Returned, v\<lparr>lastCall := Some now\<rparr>, h1)
     else (Returned, v\<lparr>lastCall := Some now\<rparr>, h))"

subsection \<open>animationEvent\<close>

definition animationEvent :: "'a list \<Rightarrow> vars \<times> 'a host \<Rightarrow> vars \<times> 'a host" where
  "animationEvent args = (\<lambda>(v, h).
     let h1 = (case frame v of Some i \<Rightarrow> cancelAnimationFrame i h | None \<Rightarrow> h);
         (i, h2) = requestAnimationFrame (\<lambda>time. args @ [time]) h1
     in (v\<lparr>frame := Some i\<rparr>, h2))"

definition animationEvent_initArgs ::
  "'a list \<Rightarrow> 'a list \<Rightarrow> vars \<times> 'a host \<Rightarrow> vars \<times> 'a host" where
  "animationEvent_initArgs initArguments callArguments = (\<lambda>(v, h).
     let h1 = (case frame v of Some i \<Rightarrow> cancelAnimationFrame i h | None \<Rightarrow> h);
         (i, h2) = requestAnimationFrame
                     (\<lambda>time. [time] @ callArguments @ initArguments) h1
     in (v\<lparr>frame := Some i\<rparr>, h2))"

subsection \<open>startInterval\<close>

text \<open>
  The same in both files: \<^verbatim>\<open>handler()\<close>, then \<^verbatim>\<open>setInterval(handler, timeout, ...args)\<close>.
  Here the journal records the invocations of \<^verbatim>\<open>handler\<close>. When \<^verbatim>\<open>handler()\<close> throws,
  \<^verbatim>\<open>setInterval\<close> is not reached and no handle is returned.
\<close>

definition startInterval ::
  "('a host \<Rightarrow> 'a list \<Rightarrow> completion) \<Rightarrow> int option \<Rightarrow> 'a list \<Rightarrow> 'a host \<Rightarrow>
     nat option \<times> 'a host" where
  "startInterval handler timeout args h =
     (let (r, h1) = invoke handler Immediate [] h
      in if r = Threw then (None, h1)
         else let (i, h2) = setInterval args timeout h1 in (Some i, h2))"

subsection \<open>Runs\<close>

text \<open>
  A wrapped function that may throw, as its caller sees it when it goes on after the call:
  the exception is reported, and the variables and the host are as the body left them.
\<close>

definition listener ::
  "('a list \<Rightarrow> vars \<times> 'a host \<Rightarrow> completion \<times> vars \<times> 'a host) \<Rightarrow> 'a list \<Rightarrow>
     vars \<times> 'a host \<Rightarrow> vars \<times> 'a host" where
  "listener f args w = snd (f args w)"

text \<open>
  One event applied to a wrapper instance \<open>f\<close> (the body of the wrapped function) and its
  host, and a burst of calls: each call \<open>(t, args)\<close> is made at time \<open>t\<close>, after the host
  has run what was due by then.
\<close>

fun step ::
  "('a list \<Rightarrow> vars \<times> 'a host \<Rightarrow> vars \<times> 'a host) \<Rightarrow> 'a event \<Rightarrow>
     vars \<times> 'a host \<Rightarrow> vars \<times> 'a host" where
  "step f (Call args) w = f args w"
| "step f (Elapse t) w = (fst w, host_event (Elapse t) (snd w))"
| "step f (Tick t) w = (fst w, host_event (Tick t) (snd w))"
| "step f (Frame ts) w = (fst w, host_event (Frame ts) (snd w))"

definition run ::
  "('a list \<Rightarrow> vars \<times> 'a host \<Rightarrow> vars \<times> 'a host) \<Rightarrow> int \<Rightarrow> 'a event list \<Rightarrow>
     vars \<times> 'a host" where
  "run f t0 evs = fold (step f) evs (new_vars, boot t0)"

fun burst :: "(int \<times> 'a list) list \<Rightarrow> 'a event list" where
  "burst [] = []"
| "burst ((t, args) # cs) = Elapse t # Call args # burst cs"

fun immediate :: "int \<times> path \<times> 'a list \<Rightarrow> bool" where
  "immediate (t, p, args) = (p = Immediate)"

fun deferred :: "int \<times> path \<times> 'a list \<Rightarrow> bool" where
  "deferred (t, p, args) = (p = Deferred)"

fun last_immediate :: "(int \<times> path \<times> 'a list) list \<Rightarrow> int option" where
  "last_immediate [] = None"
| "last_immediate ((t, p, args) # es) =
     (case last_immediate es of Some u \<Rightarrow> Some u
      | None \<Rightarrow> if p = Immediate then Some t else None)"

text \<open>
  A wrapper instance has at most one timeout (or frame request) pending, and it is the one
  whose handle the instance has stored.
\<close>

definition one_timeout :: "vars \<times> 'a host \<Rightarrow> bool" where
  "one_timeout w \<longleftrightarrow>
     (\<forall>x\<in>set (timeouts (snd w)). timer (fst w) = Some (fst x)) \<and> length (timeouts (snd w)) \<le> 1"

definition one_frame :: "vars \<times> 'a host \<Rightarrow> bool" where
  "one_frame w \<longleftrightarrow>
     (\<forall>x\<in>set (frames (snd w)). frame (fst w) = Some (fst x)) \<and> length (frames (snd w)) \<le> 1"

text \<open>
  The calls of a burst come in the order of their times, each less than \<open>d\<close> after the one
  before.
\<close>

fun spaced :: "int \<Rightarrow> (int \<times> 'a list) list \<Rightarrow> bool" where
  "spaced d [] = True"
| "spaced d [c] = True"
| "spaced d (c # c' # cs) = (fst c \<le> fst c' \<and> fst c' - fst c < d \<and> spaced d (c' # cs))"

text \<open>
  The calls of a burst come in the order of their times, all of them less than \<open>d\<close> after
  the first.
\<close>

fun window :: "int \<Rightarrow> (int \<times> 'a list) list \<Rightarrow> bool" where
  "window d [] = True"
| "window d (c # cs) = (sorted (fst c # map fst cs) \<and> list_all (\<lambda>c'. fst c' - fst c < d) cs)"

section \<open>The bodies, unfolded\<close>

lemma throttle_is_initArgs_Nil:
  "throttle cb timeout e args = throttle_initArgs cb timeout e [] args"
  unfolding throttle_def throttle_initArgs_def append_Nil2 by (rule refl)

lemma throttle_initArgs_completion:
  "fst (throttle_initArgs cb timeout e ia args (v, h)) =
     (if (case lastCall v of None \<Rightarrow> True | Some l \<Rightarrow> clock h - l > timeout)
      then cb h args else Returned)"
  by (cases "cb h args")
     (simp_all add: throttle_initArgs_def Date_now_def invoke_def setTimeout_def Let_def
       split: option.splits)

lemma throttle_initArgs_unfold:
  "listener (throttle_initArgs cb timeout e ia) args (v, h) =
     (if (case lastCall v of None \<Rightarrow> True | Some l \<Rightarrow> clock h - l > timeout) then
        if cb h args = Threw then
          (v\<lparr>lastCall := Some (clock h)\<rparr>,
           h\<lparr>invoked := invoked h @ [(clock h, Immediate, args)]\<rparr>)
        else
          (v\<lparr>lastCall := Some (clock h), timer := None\<rparr>,
           (clearTimeout (timer v) h)\<lparr>invoked := invoked h @ [(clock h, Immediate, args)]\<rparr>)
      else if e \<and> timer v = None then
        (v\<lparr>timer := Some (fresh h)\<rparr>,
         h\<lparr>fresh := Suc (fresh h),
           timeouts := timeouts h @ [(fresh h, clock h + max 0 timeout, args @ ia)]\<rparr>)
      else (v, h))"
  by (cases v)
     (simp add: listener_def throttle_initArgs_def Date_now_def invoke_def clearTimeout_def
       setTimeout_def Let_def split: option.splits)

lemma throttle_completion:
  "fst (throttle cb timeout e args (v, h)) =
     (if (case lastCall v of None \<Rightarrow> True | Some l \<Rightarrow> clock h - l > timeout)
      then cb h args else Returned)"
  by (simp add: throttle_is_initArgs_Nil throttle_initArgs_completion)

lemma throttle_unfold:
  "listener (throttle cb timeout e) args (v, h) =
     (if (case lastCall v of None \<Rightarrow> True | Some l \<Rightarrow> clock h - l > timeout) then
        if cb h args = Threw then
          (v\<lparr>lastCall := Some (clock h)\<rparr>,
           h\<lparr>invoked := invoked h @ [(clock h, Immediate, args)]\<rparr>)
        else
          (v\<lparr>lastCall := Some (clock h), timer := None\<rparr>,
           (clearTimeout (timer v) h)\<lparr>invoked := invoked h @ [(clock h, Immediate, args)]\<rparr>)
      else if e \<and> timer v = None then
        (v\<lparr>timer := Some (fresh h)\<rparr>,
         h\<lparr>fresh := Suc (fresh h),
           timeouts := timeouts h @ [(fresh h, clock h + max 0 timeout, args)]\<rparr>)
      else (v, h))"
  using throttle_initArgs_unfold [of cb timeout e "[]" args v h]
  by (simp add: listener_def throttle_is_initArgs_Nil)

lemma throttle_split:
  "throttle cb timeout e args w = (r, u) \<longleftrightarrow>
     fst (throttle cb timeout e args w) = r \<and> listener (throttle cb timeout e) args w = u"
  by (auto simp: listener_def)

lemma initialEvent_split:
  "initialEvent cb timeout args w = (r, u) \<longleftrightarrow>
     fst (initialEvent cb timeout args w) = r \<and> listener (initialEvent cb timeout) args w = u"
  by (auto simp: listener_def)

lemma initialEvent_initArgs_split:
  "initialEvent_initArgs cb timeout ia args w = (r, u) \<longleftrightarrow>
     fst (initialEvent_initArgs cb timeout ia args w) = r \<and>
     listener (initialEvent_initArgs cb timeout ia) args w = u"
  by (auto simp: listener_def)

lemma finalEvent_unfold:
  "finalEvent timeout args (v, h) =
     (v\<lparr>timer := Some (fresh h)\<rparr>,
      h\<lparr>fresh := Suc (fresh h),
        timeouts := filter (\<lambda>e. Some (fst e) \<noteq> timer v) (timeouts h) @
                      [(fresh h, clock h + max 0 timeout, args)]\<rparr>)"
  by (simp add: finalEvent_def clearTimeout_def setTimeout_def Let_def split: option.splits)

lemma initialEvent_initArgs_completion:
  "fst (initialEvent_initArgs cb timeout ia args (v, h)) =
     (if (case lastCall v of None \<Rightarrow> True | Some l \<Rightarrow> clock h - l > timeout)
      then cb h (args @ ia) else Returned)"
  by (cases "cb h (args @ ia)")
     (simp_all add: initialEvent_initArgs_def Date_now_def invoke_def Let_def)

lemma initialEvent_initArgs_unfold:
  "listener (initialEvent_initArgs cb timeout ia) args (v, h) =
     (if (case lastCall v of None \<Rightarrow> True | Some l \<Rightarrow> clock h - l > timeout) then
        (if cb h (args @ ia) = Threw then v else v\<lparr>lastCall := Some (clock h)\<rparr>,
         h\<lparr>invoked := invoked h @ [(clock h, Immediate, args @ ia)]\<rparr>)
      else (v\<lparr>lastCall := Some (clock h)\<rparr>, h))"
  by (simp add: listener_def initialEvent_initArgs_def Date_now_def invoke_def Let_def)

lemma initialEvent_completion:
  "fst (initialEvent cb timeout args (v, h)) =
     (if (case lastCall v of None \<Rightarrow> True | Some l \<Rightarrow> clock h - l > timeout)
      then cb h args else Returned)"
  by (cases "cb h args") (simp_all add: initialEvent_def Date_now_def invoke_def Let_def)

lemma initialEvent_unfold:
  "listener (initialEvent cb timeout) args (v, h) =
     (if (case lastCall v of None \<Rightarrow> True | Some l \<Rightarrow> clock h - l > timeout) then
        (if cb h args = Threw then v else v\<lparr>lastCall := Some (clock h)\<rparr>,
         h\<lparr>invoked := invoked h @ [(clock h, Immediate, args)]\<rparr>)
      else (v\<lparr>lastCall := Some (clock h)\<rparr>, h))"
  by (simp add: listener_def initialEvent_def Date_now_def invoke_def Let_def)

lemma animationEvent_unfold:
  "animationEvent args (v, h) =
     (v\<lparr>frame := Some (fresh h)\<rparr>,
      h\<lparr>fresh := Suc (fresh h),
        frames := filter (\<lambda>e. Some (fst e) \<noteq> frame v) (frames h) @
                    [(fresh h, \<lambda>time. args @ [time])]\<rparr>)"
  by (simp add: animationEvent_def cancelAnimationFrame_def requestAnimationFrame_def Let_def
      split: option.splits)

lemma animationEvent_initArgs_unfold:
  "animationEvent_initArgs ia args (v, h) =
     (v\<lparr>frame := Some (fresh h)\<rparr>,
      h\<lparr>fresh := Suc (fresh h),
        frames := filter (\<lambda>e. Some (fst e) \<noteq> frame v) (frames h) @
                    [(fresh h, \<lambda>time. time # args @ ia)]\<rparr>)"
  by (simp add: animationEvent_initArgs_def cancelAnimationFrame_def requestAnimationFrame_def
      Let_def split: option.splits)

section \<open>The host on its own\<close>

lemmas host_defs = boot_def new_vars_def elapse_def render_def run_def

lemma elapse_none_due:
  assumes "\<forall>x\<in>set (timeouts h). t < fst (snd x)"
  shows "elapse t h = h\<lparr>clock := t\<rparr>"
proof -
  have "filter (\<lambda>e. fst (snd e) \<le> t) (timeouts h) = []"
    using assms by (auto simp: filter_empty_conv)
  moreover have "filter (\<lambda>e. \<not> fst (snd e) \<le> t) (timeouts h) = timeouts h"
    using assms by (auto simp: filter_id_conv)
  ultimately show ?thesis by (simp add: elapse_def)
qed

lemma last_immediate_append:
  "last_immediate (xs @ ys) =
     (case last_immediate ys of Some u \<Rightarrow> Some u | None \<Rightarrow> last_immediate xs)"
  by (induction xs) (auto split: option.splits)

lemma last_immediate_Deferred:
  "last_immediate (map (\<lambda>x. (f x, Deferred, g x)) xs) = None"
  by (induction xs) simp_all

lemma last_immediate_host_event:
  "last_immediate (invoked (host_event ev h)) = last_immediate (invoked h)"
  by (cases ev)
     (simp_all add: elapse_def render_def last_immediate_append last_immediate_Deferred)

lemma filter_immediate_host_event:
  "filter immediate (invoked (host_event ev h)) = filter immediate (invoked h)"
  by (cases ev) (simp_all add: elapse_def render_def filter_map comp_def)

section \<open>At most one deferred invocation is pending\<close>

lemma fold_step_inv:
  assumes "P w" and "\<And>ev u. P u \<Longrightarrow> P (step f ev u)"
  shows "P (fold (step f) evs w)"
  using assms(1)
proof (induction evs arbitrary: w)
  case Nil
  then show ?case by simp
next
  case (Cons ev evs)
  from Cons.prems have "P (step f ev w)" by (rule assms(2))
  then have "P (fold (step f) evs (step f ev w))" by (rule Cons.IH)
  then show ?case by simp
qed

lemma length_filter_le1: "length xs \<le> 1 \<Longrightarrow> length (filter P xs) \<le> 1"
  by (rule le_trans [OF length_filter_le])

lemma host_event_timeouts_length:
  assumes "length (timeouts h) \<le> 1"
  shows "length (timeouts (host_event ev h)) \<le> 1"
proof (cases ev)
  case (Elapse t)
  then show ?thesis
    using length_filter_le1 [OF assms] by (simp add: elapse_def)
qed (use assms in \<open>simp_all add: render_def\<close>)

lemma host_event_timeouts_set:
  "x \<in> set (timeouts (host_event ev h)) \<Longrightarrow> x \<in> set (timeouts h)"
  by (cases ev) (simp_all add: elapse_def render_def)

lemma host_event_frames_length:
  "length (frames h) \<le> 1 \<Longrightarrow> length (frames (host_event ev h)) \<le> 1"
  by (cases ev) (simp_all add: elapse_def render_def)

lemma host_event_frames_set:
  "x \<in> set (frames (host_event ev h)) \<Longrightarrow> x \<in> set (frames h)"
  by (cases ev) (simp_all add: elapse_def render_def)

lemma one_timeout_host: "one_timeout w \<Longrightarrow> one_timeout (fst w, host_event ev (snd w))"
  unfolding one_timeout_def
  using host_event_timeouts_length [of "snd w" ev] host_event_timeouts_set [where h = "snd w" and ev = ev]
  by auto

lemma one_frame_host: "one_frame w \<Longrightarrow> one_frame (fst w, host_event ev (snd w))"
  unfolding one_frame_def
  using host_event_frames_length [of "snd w" ev] host_event_frames_set [where h = "snd w" and ev = ev]
  by auto

lemma one_timeout_throttle: "one_timeout w \<Longrightarrow> one_timeout (listener (throttle_initArgs cb timeout e ia) args w)"
  by (cases w; cases "timeouts (snd w)")
     (auto simp: one_timeout_def throttle_initArgs_unfold clearTimeout_def split: if_splits option.splits)

lemma one_timeout_finalEvent: "one_timeout w \<Longrightarrow> one_timeout (finalEvent timeout args w)"
  by (cases w; cases "timeouts (snd w)")
     (auto simp: one_timeout_def finalEvent_unfold)

lemma one_frame_animationEvent: "one_frame w \<Longrightarrow> one_frame (animationEvent args w)"
  by (cases w; cases "frames (snd w)")
     (auto simp: one_frame_def animationEvent_unfold)

lemma one_frame_animationEvent_initArgs: "one_frame w \<Longrightarrow> one_frame (animationEvent_initArgs ia args w)"
  by (cases w; cases "frames (snd w)")
     (auto simp: one_frame_def animationEvent_initArgs_unfold)

lemma one_timeout_step:
  assumes "\<And>args u. one_timeout u \<Longrightarrow> one_timeout (f args u)" and "one_timeout w"
  shows "one_timeout (step f ev w)"
proof (cases ev)
  case (Call args)
  from assms(2) have "one_timeout (f args w)" by (rule assms(1))
  with Call show ?thesis by simp
next
  case (Elapse t)
  with one_timeout_host [OF assms(2), of ev] show ?thesis by simp
next
  case (Tick t)
  with one_timeout_host [OF assms(2), of ev] show ?thesis by simp
next
  case (Frame ts)
  with one_timeout_host [OF assms(2), of ev] show ?thesis by simp
qed

lemma one_frame_step:
  assumes "\<And>args u. one_frame u \<Longrightarrow> one_frame (f args u)" and "one_frame w"
  shows "one_frame (step f ev w)"
proof (cases ev)
  case (Call args)
  from assms(2) have "one_frame (f args w)" by (rule assms(1))
  with Call show ?thesis by simp
next
  case (Elapse t)
  with one_frame_host [OF assms(2), of ev] show ?thesis by simp
next
  case (Tick t)
  with one_frame_host [OF assms(2), of ev] show ?thesis by simp
next
  case (Frame ts)
  with one_frame_host [OF assms(2), of ev] show ?thesis by simp
qed

lemma one_timeout_run:
  assumes "\<And>args u. one_timeout u \<Longrightarrow> one_timeout (f args u)"
  shows "one_timeout (run f t0 evs)"
  unfolding run_def
proof (rule fold_step_inv [where P = one_timeout])
  show "one_timeout (new_vars, boot t0)"
    by (simp add: one_timeout_def boot_def)
  show "one_timeout (step f ev u)" if "one_timeout u" for ev u
    using assms that by (rule one_timeout_step)
qed

lemma one_frame_run:
  assumes "\<And>args u. one_frame u \<Longrightarrow> one_frame (f args u)"
  shows "one_frame (run f t0 evs)"
  unfolding run_def
proof (rule fold_step_inv [where P = one_frame])
  show "one_frame (new_vars, boot t0)"
    by (simp add: one_frame_def boot_def)
  show "one_frame (step f ev u)" if "one_frame u" for ev u
    using assms that by (rule one_frame_step)
qed

text \<open>
  C8. For every sequence of events that a new instance of \<^verbatim>\<open>throttle\<close> (of either file),
  \<^verbatim>\<open>finalEvent\<close> or \<^verbatim>\<open>animationEvent\<close> (of either file) goes through, at most one deferred
  invocation is pending afterwards: the host holds at most one timeout, respectively one
  frame request, of the instance.
\<close>

theorem one_pending:
  "length (timeouts (snd (run (listener (throttle cb timeout e)) t0 evs))) \<le> 1 \<and>
   length (timeouts (snd (run (listener (throttle_initArgs cb timeout e ia)) t0 evs))) \<le> 1 \<and>
   length (timeouts (snd (run (finalEvent timeout) t0 evs))) \<le> 1 \<and>
   length (frames (snd (run animationEvent t0 evs))) \<le> 1 \<and>
   length (frames (snd (run (animationEvent_initArgs ia) t0 evs))) \<le> 1"
proof -
  have "one_timeout (run (listener (throttle_initArgs cb timeout e ia')) t0 evs)" for ia'
    by (rule one_timeout_run) (rule one_timeout_throttle)
  note a = this [of ia] this [of "[]"]
  have "throttle cb timeout e = throttle_initArgs cb timeout e []"
    by (rule ext) (rule throttle_is_initArgs_Nil)
  note b = a(2) [folded this]
  have c: "one_timeout (run (finalEvent timeout) t0 evs)"
    by (rule one_timeout_run) (rule one_timeout_finalEvent)
  have d: "one_frame (run animationEvent t0 evs)"
    by (rule one_frame_run) (rule one_frame_animationEvent)
  have e: "one_frame (run (animationEvent_initArgs ia) t0 evs)"
    by (rule one_frame_run) (rule one_frame_animationEvent_initArgs)
  from a(1) b c d e show ?thesis
    by (simp add: one_timeout_def one_frame_def)
qed

section \<open>throttle\<close>

text \<open>
  C4, amended. A call of the function returned by \<^verbatim>\<open>throttle\<close>, made when there was no
  immediate invocation before or when more than \<open>timeout\<close> has passed since the last one,
  sets \<^verbatim>\<open>lastCall\<close> to the present time and invokes the callback at once with the
  arguments of the call. When the callback returns, the timeout stored in \<^verbatim>\<open>timer\<close> is
  cancelled and \<^verbatim>\<open>timer\<close> is cleared; with the instance's invariant no timeout is pending
  afterwards. When the callback throws, the exception leaves the wrapped function, and
  \<^verbatim>\<open>timer\<close> and the pending timeout stay as they are. A call made exactly \<open>timeout\<close> after
  the last immediate invocation returns without invoking the callback and leaves
  \<^verbatim>\<open>lastCall\<close> as it is. The second file does the same on all counts.
\<close>

theorem throttle_immediate_path:
  assumes "throttle cb timeout e args (v, h) = (r, v', h')"
  shows "((lastCall v = None \<or> (\<exists>l. lastCall v = Some l \<and> timeout < clock h - l)) \<longrightarrow>
            invoked h' = invoked h @ [(clock h, Immediate, args)] \<and>
            lastCall v' = Some (clock h) \<and> r = cb h args \<and>
            (r = Returned \<longrightarrow>
               timer v' = None \<and>
               timeouts h' = filter (\<lambda>x. Some (fst x) \<noteq> timer v) (timeouts h) \<and>
               (one_timeout (v, h) \<longrightarrow> timeouts h' = [])) \<and>
            (r = Threw \<longrightarrow> timer v' = timer v \<and> timeouts h' = timeouts h) \<and>
            throttle_initArgs cb timeout e ia args (v, h) = (r, v', h')) \<and>
         (lastCall v = Some (clock h - timeout) \<longrightarrow>
            r = Returned \<and> invoked h' = invoked h \<and> lastCall v' = lastCall v \<and>
            fst (throttle_initArgs cb timeout e ia args (v, h)) = Returned \<and>
            invoked (snd (listener (throttle_initArgs cb timeout e ia) args (v, h))) = invoked h \<and>
            lastCall (fst (listener (throttle_initArgs cb timeout e ia) args (v, h))) = lastCall v)"
proof -
  from assms have r: "fst (throttle cb timeout e args (v, h)) = r"
    and s: "listener (throttle cb timeout e) args (v, h) = (v', h')"
    by (simp_all add: listener_def)
  have f: "filter (\<lambda>x. Some (fst x) \<noteq> timer v) (timeouts h) = []" if "one_timeout (v, h)"
    using that by (auto simp: one_timeout_def filter_empty_conv)
  have i: "throttle_initArgs cb timeout e ia args (v, h) = (r, v', h')"
    if "lastCall v = None \<or> (\<exists>l. lastCall v = Some l \<and> timeout < clock h - l)"
  proof (rule prod_eqI)
    show "fst (throttle_initArgs cb timeout e ia args (v, h)) = fst (r, v', h')"
      using that r by (auto simp: throttle_completion throttle_initArgs_completion)
    have "listener (throttle_initArgs cb timeout e ia) args (v, h) = (v', h')"
      using that s by (auto simp: throttle_unfold throttle_initArgs_unfold)
    then show "snd (throttle_initArgs cb timeout e ia args (v, h)) = snd (r, v', h')"
      by (simp add: listener_def)
  qed
  have a: "(lastCall v = None \<or> (\<exists>l. lastCall v = Some l \<and> timeout < clock h - l)) \<longrightarrow>
            invoked h' = invoked h @ [(clock h, Immediate, args)] \<and>
            lastCall v' = Some (clock h) \<and> r = cb h args \<and>
            (r = Returned \<longrightarrow>
               timer v' = None \<and>
               timeouts h' = filter (\<lambda>x. Some (fst x) \<noteq> timer v) (timeouts h) \<and>
               (one_timeout (v, h) \<longrightarrow> timeouts h' = [])) \<and>
            (r = Threw \<longrightarrow> timer v' = timer v \<and> timeouts h' = timeouts h)"
    using r s f
    by (auto simp: throttle_completion throttle_unfold clearTimeout_def
        split: option.splits if_splits)
  have b: "lastCall v = Some (clock h - timeout) \<longrightarrow>
            r = Returned \<and> invoked h' = invoked h \<and> lastCall v' = lastCall v \<and>
            fst (throttle_initArgs cb timeout e ia args (v, h)) = Returned \<and>
            invoked (snd (listener (throttle_initArgs cb timeout e ia) args (v, h))) = invoked h \<and>
            lastCall (fst (listener (throttle_initArgs cb timeout e ia) args (v, h))) = lastCall v"
    using r s
    by (auto simp: throttle_completion throttle_initArgs_completion throttle_unfold
        throttle_initArgs_unfold split: if_splits)
  from a b i show ?thesis by blast
qed

theorem throttle_immediate_path_witness:
  "run (listener (throttle returns 500 True)) 0 [Call [''a''], Call [''x''], Tick 501] =
     (\<lparr>lastCall = Some 0, timer = Some 1, frame = None\<rparr>,
      \<lparr>clock = 501, fresh = 2, timeouts = [(1, 500, [''x''])], frames = [], intervals = [],
       invoked = [(0, Immediate, [''a''])]\<rparr>) \<and>
   one_timeout (run (listener (throttle returns 500 True)) 0 [Call [''a''], Call [''x''], Tick 501]) \<and>
   throttle returns 500 True [''b'']
       (run (listener (throttle returns 500 True)) 0 [Call [''a''], Call [''x''], Tick 501]) =
     (Returned, \<lparr>lastCall = Some 501, timer = None, frame = None\<rparr>,
      \<lparr>clock = 501, fresh = 2, timeouts = [], frames = [], intervals = [],
       invoked = [(0, Immediate, [''a'']), (501, Immediate, [''b''])]\<rparr>) \<and>
   throttle (throws_on [''b'']) 500 True [''b'']
       (run (listener (throttle returns 500 True)) 0 [Call [''a''], Call [''x''], Tick 501]) =
     (Threw, \<lparr>lastCall = Some 501, timer = Some 1, frame = None\<rparr>,
      \<lparr>clock = 501, fresh = 2, timeouts = [(1, 500, [''x''])], frames = [], intervals = [],
       invoked = [(0, Immediate, [''a'']), (501, Immediate, [''b''])]\<rparr>) \<and>
   lastCall (fst (run (listener (throttle returns 500 True)) 0 [Call [''a''], Tick 500])) =
     Some (500 - 500) \<and>
   throttle returns 500 True [''b'']
       (run (listener (throttle returns 500 True)) 0 [Call [''a''], Tick 500]) =
     (Returned, \<lparr>lastCall = Some 0, timer = Some 1, frame = None\<rparr>,
      \<lparr>clock = 500, fresh = 2, timeouts = [(1, 1000, [''b''])], frames = [], intervals = [],
       invoked = [(0, Immediate, [''a''])]\<rparr>)"
proof -
  let ?v = "\<lparr>lastCall = Some 0, timer = Some 1, frame = None\<rparr>"
  let ?h = "\<lparr>clock = 501, fresh = 2, timeouts = [(1, 500, [''x''])], frames = [],
             intervals = [], invoked = [(0, Immediate, [''a''])]\<rparr> :: string host"
  let ?k = "\<lparr>clock = 500, fresh = 1, timeouts = [], frames = [],
             intervals = [], invoked = [(0, Immediate, [''a''])]\<rparr> :: string host"
  have w: "run (listener (throttle returns 500 True)) 0 [Call [''a''], Call [''x''], Tick 501] =
      (?v, ?h)"
    by (simp add: host_defs throttle_unfold clearTimeout_def returns_def)
  have u: "run (listener (throttle returns 500 True)) 0 [Call [''a''], Tick 500] =
      (\<lparr>lastCall = Some 0, timer = None, frame = None\<rparr>, ?k)"
    by (simp add: host_defs throttle_unfold clearTimeout_def returns_def)
  have o: "one_timeout (?v, ?h)"
    by (simp add: one_timeout_def)
  have a: "throttle returns 500 True [''b''] (?v, ?h) =
     (Returned, \<lparr>lastCall = Some 501, timer = None, frame = None\<rparr>,
      \<lparr>clock = 501, fresh = 2, timeouts = [], frames = [], intervals = [],
       invoked = [(0, Immediate, [''a'']), (501, Immediate, [''b''])]\<rparr>)"
    by (simp add: throttle_split throttle_completion throttle_unfold clearTimeout_def returns_def)
  have b: "throttle (throws_on [''b'']) 500 True [''b''] (?v, ?h) =
     (Threw, \<lparr>lastCall = Some 501, timer = Some 1, frame = None\<rparr>,
      \<lparr>clock = 501, fresh = 2, timeouts = [(1, 500, [''x''])], frames = [], intervals = [],
       invoked = [(0, Immediate, [''a'']), (501, Immediate, [''b''])]\<rparr>)"
    by (simp add: throttle_split throttle_completion throttle_unfold throws_on_def)
  have c: "throttle returns 500 True [''b'']
       (\<lparr>lastCall = Some 0, timer = None, frame = None\<rparr>, ?k) =
     (Returned, \<lparr>lastCall = Some 0, timer = Some 1, frame = None\<rparr>,
      \<lparr>clock = 500, fresh = 2, timeouts = [(1, 1000, [''b''])], frames = [], intervals = [],
       invoked = [(0, Immediate, [''a''])]\<rparr>)"
    by (simp add: throttle_split throttle_completion throttle_unfold returns_def)
  note throttle_immediate_path [OF a, where ia = "[]"]
    throttle_immediate_path [OF b, where ia = "[]"]
    throttle_immediate_path [OF c, where ia = "[]"]
  with w u o a b c show ?thesis by simp
qed

text \<open>
  C4 as it is written fails when the callback throws: after the calls \<open>a\<close> at 0 and \<open>b\<close> at
  100 (which arms the timeout due at 600), the call \<open>c\<close> at 501 is immediate, the callback
  throws, and the timeout is neither cancelled nor is \<^verbatim>\<open>timer\<close> cleared; the trailing
  invocation with \<open>b\<close> still runs at 600.
\<close>

theorem throttle_immediate_path_counterexample:
  "throttle (throws_on [Str ''c'']) 500 True [Str ''c'']
       (run (listener (throttle (throws_on [Str ''c'']) 500 True)) 0
          [Call [Str ''a''], Elapse 100, Call [Str ''b''], Elapse 501]) =
     (Threw, \<lparr>lastCall = Some 501, timer = Some 1, frame = None\<rparr>,
      \<lparr>clock = 501, fresh = 2, timeouts = [(1, 600, [Str ''b''])], frames = [], intervals = [],
       invoked = [(0, Immediate, [Str ''a'']), (501, Immediate, [Str ''c''])]\<rparr>) \<and>
   timer (fst (run (listener (throttle (throws_on [Str ''c'']) 500 True)) 0
          [Call [Str ''a''], Elapse 100, Call [Str ''b''], Elapse 501, Call [Str ''c'']])) \<noteq> None \<and>
   invoked (snd (run (listener (throttle (throws_on [Str ''c'']) 500 True)) 0
          [Call [Str ''a''], Elapse 100, Call [Str ''b''], Elapse 501, Call [Str ''c''],
           Elapse 600])) =
     [(0, Immediate, [Str ''a'']), (501, Immediate, [Str ''c'']), (600, Deferred, [Str ''b''])]"
  by (simp add: host_defs throttle_split throttle_completion throttle_unfold clearTimeout_def
      throws_on_def)

lemma lastCall_throttle:
  assumes "lastCall (fst w) = last_immediate (invoked (snd w))"
  shows "lastCall (fst (listener (throttle cb timeout e) args w)) =
           last_immediate (invoked (snd (listener (throttle cb timeout e) args w)))"
  using assms
  by (cases w) (simp add: throttle_unfold last_immediate_append clearTimeout_def split: option.splits)

lemma lastCall_step:
  assumes "lastCall (fst w) = last_immediate (invoked (snd w))"
  shows "lastCall (fst (step (listener (throttle cb timeout e)) ev w)) =
           last_immediate (invoked (snd (step (listener (throttle cb timeout e)) ev w)))"
  using assms lastCall_throttle [OF assms] by (cases ev) (simp_all add: last_immediate_host_event del: host_event.simps)

lemma lastCall_fold:
  assumes "lastCall (fst w) = last_immediate (invoked (snd w))"
  shows "lastCall (fst (fold (step (listener (throttle cb timeout e))) evs w)) =
           last_immediate (invoked (snd (fold (step (listener (throttle cb timeout e))) evs w)))"
  using assms
proof (induction evs arbitrary: w)
  case Nil
  then show ?case by simp
next
  case (Cons ev evs)
  from Cons.prems have "lastCall (fst (step (listener (throttle cb timeout e)) ev w)) =
      last_immediate (invoked (snd (step (listener (throttle cb timeout e)) ev w)))"
    by (rule lastCall_step)
  then show ?case using Cons.IH by simp
qed

text \<open>
  C7. When the host runs the deferred call of \<^verbatim>\<open>throttle\<close>, \<^verbatim>\<open>lastCall\<close> stays as it is. In
  every run of a new instance \<^verbatim>\<open>lastCall\<close> is the time of the latest immediate invocation
  (and \<^verbatim>\<open>undefined\<close> if there was none), never the time of a deferred one; so a call made
  after the deferred call has run is immediate or not by the time since the last immediate
  invocation alone.
\<close>

theorem throttle_lastCall_immediate_only:
  "lastCall (fst (step (listener (throttle cb timeout e)) (Elapse t) w)) = lastCall (fst w) \<and>
   lastCall (fst (run (listener (throttle cb timeout e)) t0 evs)) =
     last_immediate (invoked (snd (run (listener (throttle cb timeout e)) t0 evs))) \<and>
   (lastCall (fst w) = Some l \<longrightarrow>
      invoked (snd (listener (throttle cb timeout e) args (step (listener (throttle cb timeout e)) (Elapse t) w))) =
        invoked (snd (step (listener (throttle cb timeout e)) (Elapse t) w)) @
          (if timeout < t - l then [(t, Immediate, args)] else []))"
proof -
  have "lastCall (fst (run (listener (throttle cb timeout e)) t0 evs)) =
     last_immediate (invoked (snd (run (listener (throttle cb timeout e)) t0 evs)))"
    unfolding run_def by (rule lastCall_fold) (simp add: new_vars_def boot_def)
  moreover have "lastCall (fst w) = Some l \<longrightarrow>
      invoked (snd (listener (throttle cb timeout e) args (step (listener (throttle cb timeout e)) (Elapse t) w))) =
        invoked (snd (step (listener (throttle cb timeout e)) (Elapse t) w)) @
          (if timeout < t - l then [(t, Immediate, args)] else [])"
    by (cases w) (simp add: throttle_unfold elapse_def clearTimeout_def split: option.splits)
  ultimately show ?thesis by simp
qed

theorem throttle_lastCall_immediate_only_witness:
  "run (listener (throttle returns 500 True)) 0 [Call [''a''], Elapse 400, Call [''b'']] =
     (\<lparr>lastCall = Some 0, timer = Some 1, frame = None\<rparr>,
      \<lparr>clock = 400, fresh = 2, timeouts = [(1, 900, [''b''])], frames = [], intervals = [],
       invoked = [(0, Immediate, [''a''])]\<rparr>) \<and>
   step (listener (throttle returns 500 True)) (Elapse 901)
       (run (listener (throttle returns 500 True)) 0 [Call [''a''], Elapse 400, Call [''b'']]) =
     (\<lparr>lastCall = Some 0, timer = Some 1, frame = None\<rparr>,
      \<lparr>clock = 901, fresh = 2, timeouts = [], frames = [], intervals = [],
       invoked = [(0, Immediate, [''a'']), (900, Deferred, [''b''])]\<rparr>) \<and>
   invoked (snd (listener (throttle returns 500 True) [''c''] (step (listener (throttle returns 500 True)) (Elapse 901)
       (run (listener (throttle returns 500 True)) 0 [Call [''a''], Elapse 400, Call [''b'']])))) =
     [(0, Immediate, [''a'']), (900, Deferred, [''b'']), (901, Immediate, [''c''])]"
  using throttle_lastCall_immediate_only [where cb = returns and timeout = 500 and e = True and t = 901
      and w = "run (listener (throttle returns 500 True)) 0 [Call [''a''], Elapse 400, Call [''b'']]"
      and l = 0 and args = "[''c'']" and ?t0.0 = 0 and evs = "[]"]
  by (simp add: host_defs throttle_unfold clearTimeout_def returns_def)

text \<open>
  C9. In \<^verbatim>\<open>throttle\<close> (both files) the handle in \<^verbatim>\<open>timer\<close> stays when the deferred call has
  run; a call clears it only on the immediate path (and does so there unless the callback
  throws). So when the deferred call
  has run and a call comes while no more than \<open>timeout\<close> has passed since the last
  immediate invocation, nothing happens, also with \<^verbatim>\<open>executeLastEvent\<close> true: the callback
  is not invoked, no timeout is armed, and the arguments of the call are lost.
\<close>

theorem throttle_stale_handle:
  assumes "timer v = Some i" and "lastCall v = Some l"
    and "timeouts h = [(i, d, a)]" and "clock h \<le> d" and "d \<le> t" and "t - l \<le> timeout"
  shows "step (listener (throttle cb timeout True)) (Elapse t) (v, h) =
           (v, h\<lparr>clock := t, timeouts := [], invoked := invoked h @ [(d, Deferred, a)]\<rparr>) \<and>
         step (listener (throttle_initArgs cb timeout True ia)) (Elapse t) (v, h) =
           (v, h\<lparr>clock := t, timeouts := [], invoked := invoked h @ [(d, Deferred, a)]\<rparr>) \<and>
         listener (throttle cb timeout True) args (step (listener (throttle cb timeout True)) (Elapse t) (v, h)) =
           step (listener (throttle cb timeout True)) (Elapse t) (v, h) \<and>
         listener (throttle_initArgs cb timeout True ia) args
             (step (listener (throttle_initArgs cb timeout True ia)) (Elapse t) (v, h)) =
           step (listener (throttle_initArgs cb timeout True ia)) (Elapse t) (v, h) \<and>
         timer (fst (listener (throttle cb timeout e) args (v, k))) =
           (if timeout < clock k - l \<and> cb k args = Returned then None else Some i) \<and>
         timer (fst (listener (throttle_initArgs cb timeout e ia) args (v, k))) =
           (if timeout < clock k - l \<and> cb k args = Returned then None else Some i)"
  using assms
  by (cases "cb k args") (simp_all add: throttle_unfold throttle_initArgs_unfold elapse_def)

theorem throttle_stale_handle_witness:
  "run (listener (throttle returns 500 True)) 0 [Call [''a''], Call [''b'']] =
     (\<lparr>lastCall = Some 0, timer = Some 1, frame = None\<rparr>,
      \<lparr>clock = 0, fresh = 2, timeouts = [(1, 500, [''b''])], frames = [], intervals = [],
       invoked = [(0, Immediate, [''a''])]\<rparr>) \<and>
   step (listener (throttle returns 500 True)) (Elapse 500) (run (listener (throttle returns 500 True)) 0 [Call [''a''], Call [''b'']]) =
     (\<lparr>lastCall = Some 0, timer = Some 1, frame = None\<rparr>,
      \<lparr>clock = 500, fresh = 2, timeouts = [], frames = [], intervals = [],
       invoked = [(0, Immediate, [''a'']), (500, Deferred, [''b''])]\<rparr>) \<and>
   listener (throttle returns 500 True) [''c'']
       (step (listener (throttle returns 500 True)) (Elapse 500) (run (listener (throttle returns 500 True)) 0 [Call [''a''], Call [''b'']])) =
     (\<lparr>lastCall = Some 0, timer = Some 1, frame = None\<rparr>,
      \<lparr>clock = 500, fresh = 2, timeouts = [], frames = [], intervals = [],
       invoked = [(0, Immediate, [''a'']), (500, Deferred, [''b''])]\<rparr>)"
  using throttle_stale_handle [where cb = returns and v = "\<lparr>lastCall = Some 0, timer = Some 1, frame = None\<rparr>"
      and h = "\<lparr>clock = 0, fresh = 2, timeouts = [(1, 500, [''b''])], frames = [],
               intervals = [], invoked = [(0, Immediate, [''a''])]\<rparr>"
      and i = 1 and l = 0 and d = 500 and a = "[''b'']" and timeout = 500 and t = 500
      and args = "[''c'']" and e = True and ia = "[]"
      and k = "\<lparr>clock = 0, fresh = 2, timeouts = [(1, 500, [''b''])], frames = [],
               intervals = [], invoked = [(0, Immediate, [''a''])]\<rparr>"]
  by (simp add: host_defs throttle_unfold clearTimeout_def returns_def)

text \<open>
  C10. In the second file the immediate path of \<^verbatim>\<open>throttle\<close> invokes the callback with the
  arguments of the call alone, and the deferred path with the arguments of the call followed
  by \<^verbatim>\<open>initArguments\<close>; when \<^verbatim>\<open>initArguments\<close> is not empty the two lists differ.
\<close>

theorem throttle_initArgs_asymmetry:
  assumes "ia \<noteq> []"
  shows "(lastCall v = None \<or> (\<exists>l. lastCall v = Some l \<and> timeout < clock h - l) \<longrightarrow>
            invoked (snd (listener (throttle_initArgs cb timeout e ia) args (v, h))) =
              invoked h @ [(clock h, Immediate, args)]) \<and>
         ((\<exists>l. lastCall v = Some l \<and> \<not> timeout < clock h - l) \<and> timer v = None \<and>
          timeouts h = [] \<and> clock h + max 0 timeout \<le> T \<longrightarrow>
            invoked (elapse T (snd (listener (throttle_initArgs cb timeout True ia) args (v, h)))) =
              invoked h @ [(clock h + max 0 timeout, Deferred, args @ ia)]) \<and>
         args @ ia \<noteq> args"
  using assms by (auto simp: throttle_initArgs_unfold elapse_def)

theorem throttle_initArgs_asymmetry_witness:
  "[''i''] \<noteq> [] \<and>
   invoked (snd (listener (throttle_initArgs returns 500 True [''i'']) [''a''] (new_vars, boot 0))) =
     [(0, Immediate, [''a''])] \<and>
   lastCall (fst (run (listener (throttle_initArgs returns 500 True [''i''])) 0 [Call [''z''], Tick 100])) = Some 0 \<and>
   timer (fst (run (listener (throttle_initArgs returns 500 True [''i''])) 0 [Call [''z''], Tick 100])) = None \<and>
   invoked (elapse 600 (snd (listener (throttle_initArgs returns 500 True [''i'']) [''a'']
       (run (listener (throttle_initArgs returns 500 True [''i''])) 0 [Call [''z''], Tick 100])))) =
     [(0, Immediate, [''z'']), (600, Deferred, [''a'', ''i''])]"
  using throttle_initArgs_asymmetry [where cb = returns and ia = "[''i'']" and v = new_vars and timeout = 500
      and h = "boot 0" and e = True and args = "[''a'']" and T = 600]
    throttle_initArgs_asymmetry [where cb = returns and ia = "[''i'']"
      and v = "fst (run (listener (throttle_initArgs returns 500 True [''i''])) 0 [Call [''z''], Tick 100])"
      and timeout = 500
      and h = "snd (run (listener (throttle_initArgs returns 500 True [''i''])) 0 [Call [''z''], Tick 100])"
      and e = True and args = "[''a'']" and T = 600]
  by (simp add: host_defs throttle_initArgs_unfold clearTimeout_def returns_def)

lemma throttle_cooldown:
  assumes "lastCall v = Some l" and "timer v = Some i"
    and "\<forall>c\<in>set cs. fst c - l \<le> d \<and> (\<forall>x\<in>set (timeouts h). fst c < fst (snd x))"
  shows "fold (step (listener (throttle_initArgs cb d e ia))) (burst cs) (v, h) =
           (v, if cs = [] then h else h\<lparr>clock := fst (last cs)\<rparr>)"
  using assms(3)
proof (induction cs arbitrary: h)
  case Nil
  then show ?case by simp
next
  case (Cons c cs)
  obtain t a where c: "c = (t, a)" by (cases c)
  from Cons.prems c have e: "elapse t h = h\<lparr>clock := t\<rparr>"
    by (intro elapse_none_due) auto
  from Cons.prems c have "\<not> d < t - l" by auto
  with assms(1,2) have k: "listener (throttle_initArgs cb d e ia) a (v, h\<lparr>clock := t\<rparr>) = (v, h\<lparr>clock := t\<rparr>)"
    by (simp add: throttle_initArgs_unfold)
  have "fold (step (listener (throttle_initArgs cb d e ia))) (burst cs) (v, h\<lparr>clock := t\<rparr>) =
           (v, if cs = [] then h\<lparr>clock := t\<rparr> else h\<lparr>clock := t\<rparr>\<lparr>clock := fst (last cs)\<rparr>)"
    using Cons.prems by (intro Cons.IH) auto
  then show ?case using c e k by simp
qed

lemma throttle_initArgs_burst:
  assumes "window d ((t1, a1) # (t2, a2) # cs)" and "t2 + d \<le> T"
  shows "invoked (snd (run (listener (throttle_initArgs cb d True ia)) t0
             (burst ((t1, a1) # (t2, a2) # cs) @ [Elapse T]))) =
           [(t1, Immediate, a1), (t2 + d, Deferred, a2 @ ia)]"
    and "fst (last ((t2, a2) # cs)) < t2 + d"
proof -
  from assms(1) have o: "t1 \<le> t2" "t2 - t1 < d" "0 < d"
    and r: "\<forall>c\<in>set cs. t2 \<le> fst c \<and> fst c - t1 < d"
    by (auto simp: list_all_iff)
  let ?v = "\<lparr>lastCall = Some t1, timer = Some 1, frame = None\<rparr>"
  let ?h = "\<lparr>clock = t2, fresh = 2, timeouts = [(1, t2 + d, a2 @ ia)], frames = [],
             intervals = [], invoked = [(t1, Immediate, a1)]\<rparr> :: 'a host"
  have a: "fold (step (listener (throttle_initArgs cb d True ia))) (burst [(t1, a1), (t2, a2)])
             (new_vars, boot t0) = (?v, ?h)"
    using o by (simp add: host_defs throttle_initArgs_unfold clearTimeout_def returns_def)
  have b: "fold (step (listener (throttle_initArgs cb d True ia))) (burst cs) (?v, ?h) =
             (?v, if cs = [] then ?h else ?h\<lparr>clock := fst (last cs)\<rparr>)"
    using r o by (intro throttle_cooldown [where l = t1 and i = 1]) auto
  have l: "cs \<noteq> [] \<Longrightarrow> t2 \<le> fst (last cs) \<and> fst (last cs) < t2 + d"
    using r o last_in_set [of cs] by fastforce
  have "burst ((t1, a1) # (t2, a2) # cs) = burst [(t1, a1), (t2, a2)] @ burst cs"
    by simp
  then have "run (listener (throttle_initArgs cb d True ia)) t0 (burst ((t1, a1) # (t2, a2) # cs) @ [Elapse T]) =
      step (listener (throttle_initArgs cb d True ia)) (Elapse T)
        (?v, if cs = [] then ?h else ?h\<lparr>clock := fst (last cs)\<rparr>)"
    unfolding run_def by (simp only: fold_append comp_def a b fold_simps)
  then show "invoked (snd (run (listener (throttle_initArgs cb d True ia)) t0
             (burst ((t1, a1) # (t2, a2) # cs) @ [Elapse T]))) =
           [(t1, Immediate, a1), (t2 + d, Deferred, a2 @ ia)]"
    using assms(2) l o by (simp add: elapse_def)
  show "fst (last ((t2, a2) # cs)) < t2 + d"
    using l o by simp
qed

text \<open>
  C3, amended. A new instance of \<^verbatim>\<open>throttle\<close> with \<^verbatim>\<open>executeLastEvent\<close> true is called
  \<open>N\<close> times within a window shorter than \<open>timeout\<close>. For \<open>N \<ge> 2\<close> the callback is invoked
  exactly twice: at once by the first call, and once more by the timeout that the second
  call armed, \<open>timeout\<close> after the second call, which is after the last call of the window,
  with the arguments of the second call (in the second file followed by
  \<^verbatim>\<open>initArguments\<close>); the arguments of the later calls are lost. For \<open>N = 1\<close> the callback
  is invoked at once and there is no trailing invocation.
\<close>

theorem throttle_burst:
  assumes "window timeout ((t1, a1) # (t2, a2) # cs)" and "t2 + timeout \<le> T"
  shows "invoked (snd (run (listener (throttle cb timeout True)) t0
             (burst ((t1, a1) # (t2, a2) # cs) @ [Elapse T]))) =
           [(t1, Immediate, a1), (t2 + timeout, Deferred, a2)] \<and>
         invoked (snd (run (listener (throttle_initArgs cb timeout True ia)) t0
             (burst ((t1, a1) # (t2, a2) # cs) @ [Elapse T]))) =
           [(t1, Immediate, a1), (t2 + timeout, Deferred, a2 @ ia)] \<and>
         fst (last ((t2, a2) # cs)) < t2 + timeout \<and>
         invoked (snd (run (listener (throttle cb timeout True)) t0 (burst [(t1, a1)] @ [Elapse T]))) =
           [(t1, Immediate, a1)] \<and>
         invoked (snd (run (listener (throttle_initArgs cb timeout True ia)) t0 (burst [(t1, a1)] @ [Elapse T]))) =
           [(t1, Immediate, a1)]"
proof -
  have eq: "throttle cb timeout True = throttle_initArgs cb timeout True []"
    by (rule ext) (rule throttle_is_initArgs_Nil)
  have one: "invoked (snd (run (listener (throttle_initArgs cb timeout True ia')) t0
      (burst [(t1, a1)] @ [Elapse T]))) = [(t1, Immediate, a1)]" for ia'
    by (simp add: host_defs throttle_initArgs_unfold clearTimeout_def returns_def)
  from throttle_initArgs_burst(1) [OF assms, where ia = "[]" and cb = cb and ?t0.0 = t0]
    throttle_initArgs_burst(1) [OF assms, where ia = ia and cb = cb and ?t0.0 = t0]
    throttle_initArgs_burst(2) [OF assms] one [of "[]"] one [of ia]
  show ?thesis unfolding eq by simp
qed

theorem throttle_burst_witness:
  "window 500 [(0, [''a'']), (100, [''b'']), (200, [''c''])] \<and>
   invoked (snd (run (listener (throttle returns 500 True)) 0
       (burst [(0, [''a'']), (100, [''b'']), (200, [''c''])] @ [Elapse 600]))) =
     [(0, Immediate, [''a'']), (600, Deferred, [''b''])] \<and>
   invoked (snd (run (listener (throttle_initArgs returns 500 True [''i''])) 0
       (burst [(0, [''a'']), (100, [''b'']), (200, [''c''])] @ [Elapse 600]))) =
     [(0, Immediate, [''a'']), (600, Deferred, [''b'', ''i''])]"
  using throttle_burst [where cb = returns and timeout = 500 and ?t1.0 = 0 and ?a1.0 = "[''a'']" and ?t2.0 = 100
      and ?a2.0 = "[''b'']" and cs = "[(200, [''c''])]" and T = 600 and ?t0.0 = 0
      and ia = "[''i'']"]
  by simp

text \<open>
  C3 as it is written fails for a single call: the callback is invoked at once and no
  trailing invocation follows.
\<close>

theorem throttle_burst_counterexample:
  "length (filter deferred (invoked (snd (run (listener (throttle returns 500 True)) 0
       (burst [(0, [Str ''a''])] @ [Elapse 1000]))))) \<noteq> 1"
  by (simp add: host_defs throttle_unfold clearTimeout_def returns_def)

section \<open>finalEvent\<close>

lemma finalEvent_burst:
  assumes "cs \<noteq> []" "spaced d cs"
    and "\<forall>x\<in>set (timeouts h). Some (fst x) = timer v \<and> fst (hd cs) < fst (snd x)"
  shows "fold (step (finalEvent d)) (burst cs) (v, h) =
           (v\<lparr>timer := Some (fresh h + length cs - 1)\<rparr>,
            h\<lparr>clock := fst (last cs), fresh := fresh h + length cs,
              timeouts := [(fresh h + length cs - 1, fst (last cs) + max 0 d,
                            snd (last cs))]\<rparr>)"
  using assms
proof (induction d cs arbitrary: v h rule: spaced.induct)
  case (1 d)
  then show ?case by simp
next
  case (2 d c)
  obtain t a where c: "c = (t, a)" by (cases c)
  from 2 c have "elapse t h = h\<lparr>clock := t\<rparr>"
    by (intro elapse_none_due) auto
  moreover from 2 have "filter (\<lambda>e. Some (fst e) \<noteq> timer v) (timeouts h) = []"
    by (auto simp: filter_empty_conv)
  ultimately show ?case using c by (simp add: finalEvent_unfold)
next
  case (3 d c c' cs)
  obtain t a where c: "c = (t, a)" by (cases c)
  from 3 c have e: "elapse t h = h\<lparr>clock := t\<rparr>"
    by (intro elapse_none_due) auto
  from 3 have f: "filter (\<lambda>e. Some (fst e) \<noteq> timer v) (timeouts h) = []"
    by (auto simp: filter_empty_conv)
  let ?v = "v\<lparr>timer := Some (fresh h)\<rparr>"
  let ?h = "h\<lparr>clock := t, fresh := Suc (fresh h), timeouts := [(fresh h, t + max 0 d, a)]\<rparr>"
  have s: "fold (step (finalEvent d)) (burst (c # c' # cs)) (v, h) =
           fold (step (finalEvent d)) (burst (c' # cs)) (?v, ?h)"
    using c e f by (simp add: finalEvent_unfold)
  have "fold (step (finalEvent d)) (burst (c' # cs)) (?v, ?h) =
           (?v\<lparr>timer := Some (fresh ?h + length (c' # cs) - 1)\<rparr>,
            ?h\<lparr>clock := fst (last (c' # cs)), fresh := fresh ?h + length (c' # cs),
              timeouts := [(fresh ?h + length (c' # cs) - 1,
                            fst (last (c' # cs)) + max 0 d, snd (last (c' # cs)))]\<rparr>)"
    using 3 c by (intro "3.IH") auto
  then show ?case unfolding s by simp
qed


lemma no_immediate_finalEvent_step:
  "filter immediate (invoked (snd (step (finalEvent d) ev w))) = filter immediate (invoked (snd w))"
  by (cases ev; cases w) (simp_all add: finalEvent_unfold filter_immediate_host_event del: host_event.simps)

lemma no_immediate_finalEvent_fold:
  "filter immediate (invoked (snd (fold (step (finalEvent d)) evs w))) =
     filter immediate (invoked (snd w))"
  by (induction evs arbitrary: w) (simp_all add: no_immediate_finalEvent_step)

text \<open>
  C5. Every call of the function returned by \<^verbatim>\<open>finalEvent\<close> cancels the timeout armed
  before and arms a new one: in every state a new instance can reach, after a call exactly
  the timeout of that call is pending. For a burst of calls, each less than \<open>timeout\<close> after
  the one before, the callback is invoked exactly once, \<open>timeout\<close> after the last call, with
  the arguments of the last call. No run of a new instance holds an immediate invocation.
\<close>

theorem finalEvent_once_after_burst:
  assumes "cs \<noteq> []" and "spaced timeout cs" and "0 \<le> timeout" and "fst (last cs) + timeout \<le> T"
  shows "invoked (snd (run (finalEvent timeout) t0 (burst cs @ [Elapse T]))) =
           [(fst (last cs) + timeout, Deferred, snd (last cs))] \<and>
         timeouts (snd (run (finalEvent timeout) t0 (burst cs @ [Elapse T]))) = [] \<and>
         timeouts (snd (finalEvent timeout args (run (finalEvent timeout) t0 evs))) =
           [(fresh (snd (run (finalEvent timeout) t0 evs)),
             clock (snd (run (finalEvent timeout) t0 evs)) + timeout, args)] \<and>
         filter immediate (invoked (snd (run (finalEvent timeout) t0 evs))) = []"
proof -
  have "fold (step (finalEvent timeout)) (burst cs) (new_vars, boot t0) =
          (new_vars\<lparr>timer := Some (fresh (boot t0) + length cs - 1)\<rparr>,
           (boot t0)\<lparr>clock := fst (last cs), fresh := fresh (boot t0) + length cs,
              timeouts := [(fresh (boot t0) + length cs - 1, fst (last cs) + max 0 timeout,
                            snd (last cs))]\<rparr>)"
    using finalEvent_burst [OF assms(1,2), of "boot t0" new_vars]
    by (simp add: boot_def)
  then have a: "invoked (snd (run (finalEvent timeout) t0 (burst cs @ [Elapse T]))) =
           [(fst (last cs) + timeout, Deferred, snd (last cs))] \<and>
         timeouts (snd (run (finalEvent timeout) t0 (burst cs @ [Elapse T]))) = []"
    using assms(3,4) by (simp add: run_def elapse_def boot_def)
  have "one_timeout (run (finalEvent timeout) t0 evs)"
    by (rule one_timeout_run) (rule one_timeout_finalEvent)
  then have "filter (\<lambda>x. Some (fst x) \<noteq> timer (fst (run (finalEvent timeout) t0 evs)))
      (timeouts (snd (run (finalEvent timeout) t0 evs))) = []"
    by (auto simp: one_timeout_def filter_empty_conv)
  then have b: "timeouts (snd (finalEvent timeout args (run (finalEvent timeout) t0 evs))) =
           [(fresh (snd (run (finalEvent timeout) t0 evs)),
             clock (snd (run (finalEvent timeout) t0 evs)) + timeout, args)]"
    using assms(3) by (cases "run (finalEvent timeout) t0 evs") (simp add: finalEvent_unfold)
  have c: "filter immediate (invoked (snd (run (finalEvent timeout) t0 evs))) = []"
    by (simp add: run_def no_immediate_finalEvent_fold boot_def)
  from a b c show ?thesis by simp
qed

theorem finalEvent_once_after_burst_witness:
  "spaced 500 [(0, [''a'']), (100, [''b'']), (200, [''c''])] \<and>
   run (finalEvent 500) 0 (burst [(0, [''a'']), (100, [''b'']), (200, [''c''])] @ [Elapse 700]) =
     (\<lparr>lastCall = None, timer = Some 3, frame = None\<rparr>,
      \<lparr>clock = 700, fresh = 4, timeouts = [], frames = [], intervals = [],
       invoked = [(700, Deferred, [''c''])]\<rparr>)"
  using finalEvent_once_after_burst [where cs = "[(0, [''a'']), (100, [''b'']), (200, [''c''])]"
      and timeout = 500 and T = 700 and ?t0.0 = 0 and evs = "[]" and args = "[]"]
  by (simp add: host_defs finalEvent_unfold)

section \<open>initialEvent\<close>

text \<open>
  C6, amended. A call of the function returned by \<^verbatim>\<open>initialEvent\<close> invokes the callback at
  once if and only if \<^verbatim>\<open>lastCall\<close> is \<^verbatim>\<open>undefined\<close> or more than \<open>timeout\<close> has passed since
  \<^verbatim>\<open>lastCall\<close>; the callback gets the arguments of the call, in the second file followed
  by \<^verbatim>\<open>initArguments\<close>. A call that does not invoke the callback, or whose callback
  returns, sets \<^verbatim>\<open>lastCall\<close> to the present time; when the callback throws, the exception
  leaves the wrapped function and \<^verbatim>\<open>lastCall\<close> stays as it is. So \<^verbatim>\<open>lastCall\<close> is the time
  of the latest call that did not end in a throw, whether or not that call invoked the
  callback.
\<close>

theorem initialEvent_fires_iff:
  assumes "initialEvent cb timeout args (v, h) = (r, v', h')"
    and "initialEvent_initArgs cb timeout ia args (v, h) = (r', v'', h'')"
  shows "(if lastCall v = None \<or> (\<exists>l. lastCall v = Some l \<and> timeout < clock h - l)
          then invoked h' = invoked h @ [(clock h, Immediate, args)] \<and> r = cb h args \<and>
               invoked h'' = invoked h @ [(clock h, Immediate, args @ ia)] \<and>
               r' = cb h (args @ ia)
          else invoked h' = invoked h \<and> r = Returned \<and>
               invoked h'' = invoked h \<and> r' = Returned) \<and>
         lastCall v' = (if r = Threw then lastCall v else Some (clock h)) \<and>
         lastCall v'' = (if r' = Threw then lastCall v else Some (clock h))"
proof -
  from assms(1) have r: "fst (initialEvent cb timeout args (v, h)) = r"
    and s: "listener (initialEvent cb timeout) args (v, h) = (v', h')"
    by (simp_all add: listener_def)
  from assms(2) have r': "fst (initialEvent_initArgs cb timeout ia args (v, h)) = r'"
    and s': "listener (initialEvent_initArgs cb timeout ia) args (v, h) = (v'', h'')"
    by (simp_all add: listener_def)
  from r s have a: "(if lastCall v = None \<or> (\<exists>l. lastCall v = Some l \<and> timeout < clock h - l)
          then invoked h' = invoked h @ [(clock h, Immediate, args)] \<and> r = cb h args
          else invoked h' = invoked h \<and> r = Returned) \<and>
         lastCall v' = (if r = Threw then lastCall v else Some (clock h))"
    by (auto simp: initialEvent_completion initialEvent_unfold split: option.splits if_splits)
  from r' s' have b: "(if lastCall v = None \<or> (\<exists>l. lastCall v = Some l \<and> timeout < clock h - l)
          then invoked h'' = invoked h @ [(clock h, Immediate, args @ ia)] \<and>
               r' = cb h (args @ ia)
          else invoked h'' = invoked h \<and> r' = Returned) \<and>
         lastCall v'' = (if r' = Threw then lastCall v else Some (clock h))"
    by (auto simp: initialEvent_initArgs_completion initialEvent_initArgs_unfold
        split: option.splits if_splits)
  from a b show ?thesis by (simp split: if_splits)
qed

theorem initialEvent_fires_iff_witness:
  "run (listener (initialEvent returns 500)) 0 [Call [''a''], Tick 250, Call [''b''], Tick 750] =
     (\<lparr>lastCall = Some 250, timer = None, frame = None\<rparr>,
      \<lparr>clock = 750, fresh = 1, timeouts = [], frames = [], intervals = [],
       invoked = [(0, Immediate, [''a''])]\<rparr>) \<and>
   initialEvent returns 500 [''c'']
       (run (listener (initialEvent returns 500)) 0 [Call [''a''], Tick 250, Call [''b''], Tick 750]) =
     (Returned, \<lparr>lastCall = Some 750, timer = None, frame = None\<rparr>,
      \<lparr>clock = 750, fresh = 1, timeouts = [], frames = [], intervals = [],
       invoked = [(0, Immediate, [''a''])]\<rparr>) \<and>
   initialEvent returns 500 [''c'']
       (run (listener (initialEvent returns 500)) 0 [Call [''a''], Tick 250, Call [''b''], Tick 751]) =
     (Returned, \<lparr>lastCall = Some 751, timer = None, frame = None\<rparr>,
      \<lparr>clock = 751, fresh = 1, timeouts = [], frames = [], intervals = [],
       invoked = [(0, Immediate, [''a'']), (751, Immediate, [''c''])]\<rparr>) \<and>
   initialEvent_initArgs returns 500 [''i''] [''c'']
       (run (listener (initialEvent returns 500)) 0 [Call [''a''], Tick 250, Call [''b''], Tick 751]) =
     (Returned, \<lparr>lastCall = Some 751, timer = None, frame = None\<rparr>,
      \<lparr>clock = 751, fresh = 1, timeouts = [], frames = [], intervals = [],
       invoked = [(0, Immediate, [''a'']), (751, Immediate, [''c'', ''i''])]\<rparr>) \<and>
   initialEvent (throws_on [''c'']) 500 [''c'']
       (run (listener (initialEvent returns 500)) 0 [Call [''a''], Tick 250, Call [''b''], Tick 751]) =
     (Threw, \<lparr>lastCall = Some 250, timer = None, frame = None\<rparr>,
      \<lparr>clock = 751, fresh = 1, timeouts = [], frames = [], intervals = [],
       invoked = [(0, Immediate, [''a'']), (751, Immediate, [''c''])]\<rparr>)"
proof -
  let ?v = "\<lparr>lastCall = Some 250, timer = None, frame = None\<rparr>"
  let ?h = "\<lparr>clock = 750, fresh = 1, timeouts = [], frames = [], intervals = [],
             invoked = [(0, Immediate, [''a''])]\<rparr> :: string host"
  let ?k = "\<lparr>clock = 751, fresh = 1, timeouts = [], frames = [], intervals = [],
             invoked = [(0, Immediate, [''a''])]\<rparr> :: string host"
  have w: "run (listener (initialEvent returns 500)) 0
      [Call [''a''], Tick 250, Call [''b''], Tick 750] = (?v, ?h)"
    by (simp add: host_defs initialEvent_unfold returns_def)
  have u: "run (listener (initialEvent returns 500)) 0
      [Call [''a''], Tick 250, Call [''b''], Tick 751] = (?v, ?k)"
    by (simp add: host_defs initialEvent_unfold returns_def)
  have a: "initialEvent returns 500 [''c''] (?v, ?h) =
     (Returned, \<lparr>lastCall = Some 750, timer = None, frame = None\<rparr>, ?h)"
    by (simp add: initialEvent_split initialEvent_completion initialEvent_unfold returns_def)
  have a': "initialEvent_initArgs returns 500 [''i''] [''c''] (?v, ?h) =
     (Returned, \<lparr>lastCall = Some 750, timer = None, frame = None\<rparr>, ?h)"
    by (simp add: initialEvent_initArgs_split initialEvent_initArgs_completion
        initialEvent_initArgs_unfold returns_def)
  have b: "initialEvent returns 500 [''c''] (?v, ?k) =
     (Returned, \<lparr>lastCall = Some 751, timer = None, frame = None\<rparr>,
      \<lparr>clock = 751, fresh = 1, timeouts = [], frames = [], intervals = [],
       invoked = [(0, Immediate, [''a'']), (751, Immediate, [''c''])]\<rparr>)"
    by (simp add: initialEvent_split initialEvent_completion initialEvent_unfold returns_def)
  have b': "initialEvent_initArgs returns 500 [''i''] [''c''] (?v, ?k) =
     (Returned, \<lparr>lastCall = Some 751, timer = None, frame = None\<rparr>,
      \<lparr>clock = 751, fresh = 1, timeouts = [], frames = [], intervals = [],
       invoked = [(0, Immediate, [''a'']), (751, Immediate, [''c'', ''i''])]\<rparr>)"
    by (simp add: initialEvent_initArgs_split initialEvent_initArgs_completion
        initialEvent_initArgs_unfold returns_def)
  have c: "initialEvent (throws_on [''c'']) 500 [''c''] (?v, ?k) =
     (Threw, ?v,
      \<lparr>clock = 751, fresh = 1, timeouts = [], frames = [], intervals = [],
       invoked = [(0, Immediate, [''a'']), (751, Immediate, [''c''])]\<rparr>)"
    by (simp add: initialEvent_split initialEvent_completion initialEvent_unfold throws_on_def)
  have c': "initialEvent_initArgs (throws_on [''c'']) 500 [] [''c''] (?v, ?k) =
     (Threw, ?v,
      \<lparr>clock = 751, fresh = 1, timeouts = [], frames = [], intervals = [],
       invoked = [(0, Immediate, [''a'']), (751, Immediate, [''c''])]\<rparr>)"
    by (simp add: initialEvent_initArgs_split initialEvent_initArgs_completion
        initialEvent_initArgs_unfold throws_on_def)
  note initialEvent_fires_iff [OF a a'] initialEvent_fires_iff [OF b b']
    initialEvent_fires_iff [OF c c']
  with w u a a' b b' c show ?thesis by simp
qed

text \<open>
  C6 as it is written fails on two counts. In the second file, when \<^verbatim>\<open>initArguments\<close> is
  not empty, the callback is not invoked with the arguments of the call alone. In both
  files, when the callback throws, \<^verbatim>\<open>lastCall\<close> is not set: after a first call at 0 whose
  callback throws it is still \<^verbatim>\<open>undefined\<close>, and a second call at 100 invokes the callback
  again.
\<close>

theorem initialEvent_counterexample:
  "invoked (snd (listener (initialEvent_initArgs returns 500 [Str ''i'']) [Str ''a'']
       (new_vars, boot 0))) \<noteq>
     [(0, Immediate, [Str ''a''])] \<and>
   lastCall (fst (listener (initialEvent (throws_on [Str ''a'']) 500) [Str ''a'']
       (new_vars, boot 0))) \<noteq>
     Some 0 \<and>
   invoked (snd (run (listener (initialEvent (throws_on [Str ''a'']) 500)) 0
       [Call [Str ''a''], Tick 100, Call [Str ''b'']])) =
     [(0, Immediate, [Str ''a'']), (100, Immediate, [Str ''b''])]"
  by (simp add: host_defs initialEvent_split initialEvent_initArgs_split initialEvent_completion
      initialEvent_initArgs_completion initialEvent_unfold initialEvent_initArgs_unfold
      returns_def throws_on_def)

section \<open>animationEvent\<close>

lemma animationEvent_burst:
  assumes "cs \<noteq> []" and "timeouts h = []" and "\<forall>x\<in>set (frames h). Some (fst x) = frame v"
  shows "fold (step animationEvent) (burst cs) (v, h) =
           (v\<lparr>frame := Some (fresh h + length cs - 1)\<rparr>,
            h\<lparr>clock := fst (last cs), fresh := fresh h + length cs,
              frames := [(fresh h + length cs - 1, \<lambda>time. snd (last cs) @ [time])]\<rparr>)"
  using assms
proof (induction cs arbitrary: v h rule: list_nonempty_induct)
  case (single c)
  obtain t a where c: "c = (t, a)" by (cases c)
  from single have "elapse t h = h\<lparr>clock := t\<rparr>"
    by (intro elapse_none_due) simp
  moreover from single have "filter (\<lambda>e. Some (fst e) \<noteq> frame v) (frames h) = []"
    by (auto simp: filter_empty_conv)
  ultimately show ?case using c by (simp add: animationEvent_unfold)
next
  case (cons c cs)
  obtain t a where c: "c = (t, a)" by (cases c)
  from cons.prems have e: "elapse t h = h\<lparr>clock := t\<rparr>"
    by (intro elapse_none_due) simp
  from cons.prems have f: "filter (\<lambda>e. Some (fst e) \<noteq> frame v) (frames h) = []"
    by (auto simp: filter_empty_conv)
  let ?v = "v\<lparr>frame := Some (fresh h)\<rparr>"
  let ?h = "h\<lparr>clock := t, fresh := Suc (fresh h), frames := [(fresh h, \<lambda>time. a @ [time])]\<rparr>"
  have s: "fold (step animationEvent) (burst (c # cs)) (v, h) =
           fold (step animationEvent) (burst cs) (?v, ?h)"
    using c e f by (simp add: animationEvent_unfold)
  have "fold (step animationEvent) (burst cs) (?v, ?h) =
           (?v\<lparr>frame := Some (fresh ?h + length cs - 1)\<rparr>,
            ?h\<lparr>clock := fst (last cs), fresh := fresh ?h + length cs,
              frames := [(fresh ?h + length cs - 1, \<lambda>time. snd (last cs) @ [time])]\<rparr>)"
    using cons.prems by (intro cons.IH) auto
  then show ?case unfolding s using cons.hyps by simp
qed

lemma animationEvent_initArgs_burst:
  assumes "cs \<noteq> []" and "timeouts h = []" and "\<forall>x\<in>set (frames h). Some (fst x) = frame v"
  shows "fold (step (animationEvent_initArgs ia)) (burst cs) (v, h) =
           (v\<lparr>frame := Some (fresh h + length cs - 1)\<rparr>,
            h\<lparr>clock := fst (last cs), fresh := fresh h + length cs,
              frames := [(fresh h + length cs - 1, \<lambda>time. time # snd (last cs) @ ia)]\<rparr>)"
  using assms
proof (induction cs arbitrary: v h rule: list_nonempty_induct)
  case (single c)
  obtain t a where c: "c = (t, a)" by (cases c)
  from single have "elapse t h = h\<lparr>clock := t\<rparr>"
    by (intro elapse_none_due) simp
  moreover from single have "filter (\<lambda>e. Some (fst e) \<noteq> frame v) (frames h) = []"
    by (auto simp: filter_empty_conv)
  ultimately show ?case using c by (simp add: animationEvent_initArgs_unfold)
next
  case (cons c cs)
  obtain t a where c: "c = (t, a)" by (cases c)
  from cons.prems have e: "elapse t h = h\<lparr>clock := t\<rparr>"
    by (intro elapse_none_due) simp
  from cons.prems have f: "filter (\<lambda>e. Some (fst e) \<noteq> frame v) (frames h) = []"
    by (auto simp: filter_empty_conv)
  let ?v = "v\<lparr>frame := Some (fresh h)\<rparr>"
  let ?h = "h\<lparr>clock := t, fresh := Suc (fresh h), frames := [(fresh h, \<lambda>time. time # a @ ia)]\<rparr>"
  have s: "fold (step (animationEvent_initArgs ia)) (burst (c # cs)) (v, h) =
           fold (step (animationEvent_initArgs ia)) (burst cs) (?v, ?h)"
    using c e f by (simp add: animationEvent_initArgs_unfold)
  have "fold (step (animationEvent_initArgs ia)) (burst cs) (?v, ?h) =
           (?v\<lparr>frame := Some (fresh ?h + length cs - 1)\<rparr>,
            ?h\<lparr>clock := fst (last cs), fresh := fresh ?h + length cs,
              frames := [(fresh ?h + length cs - 1, \<lambda>time. time # snd (last cs) @ ia)]\<rparr>)"
    using cons.prems by (intro cons.IH) auto
  then show ?case unfolding s using cons.hyps by simp
qed

text \<open>
  A burst of calls before the next frame gives one invocation, with the arguments of the
  last call. In \<^verbatim>\<open>events.ts\<close> the timestamp of the frame is the last argument; in the
  second file it is the first, and \<^verbatim>\<open>initArguments\<close> come last.
\<close>

lemma animationEvent_coalesces:
  assumes "cs \<noteq> []"
  shows "invoked (snd (run animationEvent t0 (burst cs @ [Frame ts]))) =
           [(fst (last cs), Deferred, snd (last cs) @ [ts])]"
  using animationEvent_burst [OF assms, of "boot t0" new_vars]
  by (simp add: run_def render_def boot_def)

lemma animationEvent_initArgs_coalesces:
  assumes "cs \<noteq> []"
  shows "invoked (snd (run (animationEvent_initArgs ia) t0 (burst cs @ [Frame ts]))) =
           [(fst (last cs), Deferred, ts # snd (last cs) @ ia)]"
  using animationEvent_initArgs_burst [OF assms, of "boot t0" new_vars ia]
  by (simp add: run_def render_def boot_def)

text \<open>
  C2. Two calls before the next frame, then the frame with timestamp 16. In \<^verbatim>\<open>events.ts\<close>
  the callback is invoked once with the arguments of the second call followed by the
  timestamp. In the second file, whose comment says that the time value is passed after all
  the other parameters, the callback is invoked once with the timestamp first.
\<close>

theorem animationEvent_initArgs_time_first:
  "invoked (snd (run animationEvent 0 [Call [Str ''a''], Call [Str ''b''], Frame (Num 16)])) =
     [(0, Deferred, [Str ''b'', Num 16])] \<and>
   invoked (snd (run (animationEvent_initArgs []) 0
       [Call [Str ''a''], Call [Str ''b''], Frame (Num 16)])) =
     [(0, Deferred, [Num 16, Str ''b''])]"
  by (simp add: host_defs animationEvent_unfold animationEvent_initArgs_unfold)

section \<open>startInterval\<close>

lemma startInterval_unfold:
  "startInterval hdl timeout args h =
     (if hdl h [] = Threw then
        (None, h\<lparr>invoked := invoked h @ [(clock h, Immediate, [])]\<rparr>)
      else
        (Some (fresh h),
         h\<lparr>fresh := Suc (fresh h),
           intervals := intervals h @ [(fresh h, (case timeout of None \<Rightarrow> 0 | Some p \<Rightarrow> p), args)],
           invoked := invoked h @ [(clock h, Immediate, [])]\<rparr>))"
  by (simp add: startInterval_def setInterval_def invoke_def)

text \<open>
  C1. \<^verbatim>\<open>startInterval(handler, 1000, "x")\<close>: the handler is invoked once before the function
  returns, but with no arguments; the interval registered with the host passes \<^verbatim>\<open>"x"\<close> on
  each repetition, and the handle returned cancels it. (A handler that throws is invoked
  with no arguments as well; then nothing is registered.)
\<close>

theorem startInterval_first_call_without_args:
  "startInterval returns (Some 1000) [Str ''x''] (boot 0) =
     (Some 1, \<lparr>clock = 0, fresh = 2, timeouts = [], frames = [],
          intervals = [(1, 1000, [Str ''x''])], invoked = [(0, Immediate, [])]\<rparr>) \<and>
   invoked (repeat 1 (host_event (Tick 1000)
       (snd (startInterval returns (Some 1000) [Str ''x''] (boot 0))))) =
     [(0, Immediate, []), (1000, Deferred, [Str ''x''])] \<and>
   invoked (repeat 1 (clearInterval 1
       (host_event (Tick 1000) (snd (startInterval returns (Some 1000) [Str ''x''] (boot 0)))))) =
     [(0, Immediate, [])] \<and>
   startInterval (throws_on []) (Some 1000) [Str ''x''] (boot 0) =
     (None, \<lparr>clock = 0, fresh = 1, timeouts = [], frames = [], intervals = [],
            invoked = [(0, Immediate, [])]\<rparr>)"
  by (simp add: startInterval_unfold boot_def repeat_def clearInterval_def returns_def
      throws_on_def)

end
